theory Spec2Isabelle
  imports Main "HOL-Library.Word"
begin

unbundle bit_operations_syntax

section \<open>The teleop bridge of brainstem-pm\<close>

text \<open>
  The bridge (\<^verbatim>\<open>tools/teleop_server.py\<close>) relays a line protocol between a serial
  device and WebSocket clients. The development embeds its two classes, \<open>BrainstemSerial\<close> and
  \<open>TeleopServer\<close>. Python \<open>bytes\<close> are lists of 8-bit words, Python \<open>str\<close> is
  \<open>string\<close> (a character of the model is a code point below 256; the ones from
  128 on stand for every non-ASCII code point), Python integers are \<open>int\<close>.
  Coroutines are run to completion: one call of \<open>handle_msg\<close> and one iteration of
  the telemetry loop are single steps on the state.
\<close>

subsection \<open>Bytes and text\<close>

type_synonym byte = "8 word"

abbreviation LF :: byte where "LF \<equiv> 0x0A"
abbreviation CR :: byte where "CR \<equiv> 0x0D"

text \<open>\<open>bytes.decode("ascii", errors="ignore")\<close>: bytes from 0x80 on are dropped.\<close>

definition ascii_decode_ignore :: "byte list \<Rightarrow> string" where
  "ascii_decode_ignore bs = map (\<lambda>b. char_of (unat b)) (filter (\<lambda>b. b < 0x80) bs)"

text \<open>\<open>str.encode("ascii", errors="ignore")\<close>: characters from 128 on are dropped.\<close>

definition is_ascii :: "char \<Rightarrow> bool" where
  "is_ascii c = ((of_char c :: nat) < 128)"

definition ascii_encode_ignore :: "string \<Rightarrow> byte list" where
  "ascii_encode_ignore s = map (\<lambda>c. of_char c) (filter is_ascii s)"

text \<open>\<open>s.rstrip(c)\<close> for a one-character argument: every trailing \<open>c\<close> goes.\<close>

definition rstrip :: "char \<Rightarrow> string \<Rightarrow> string" where
  "rstrip c s = rev (dropWhile (\<lambda>x. x = c) (rev s))"

text \<open>\<open>buf.index(x)\<close>: the first position of \<open>x\<close>, \<open>None\<close> for ValueError.\<close>

fun index_of :: "'a \<Rightarrow> 'a list \<Rightarrow> nat option" where
  "index_of x [] = None"
| "index_of x (y # ys) =
     (if y = x then Some 0 else (case index_of x ys of None \<Rightarrow> None | Some i \<Rightarrow> Some (Suc i)))"

lemma index_of_less: "index_of x xs = Some i \<Longrightarrow> i < length xs"
  by (induction xs arbitrary: i) (auto split: if_splits option.splits)

subsection \<open>The line reader of BrainstemSerial\<close>

text \<open>
  The inner loop of \<open>read_lines\<close>: while the buffer holds a 0x0A, the bytes before
  the first one are decoded, stripped of trailing carriage returns and yielded,
  and the buffer loses them and the 0x0A. The result is the list of yielded
  lines and the buffer left.
\<close>

function drain :: "byte list \<Rightarrow> string list \<times> byte list" where
  "drain buf =
     (case index_of LF buf of
        None \<Rightarrow> ([], buf)
      | Some nl \<Rightarrow>
          (let line = rstrip (CHR 0x0D) (ascii_decode_ignore (take nl buf));
               (ls, b) = drain (drop (nl + 1) buf)
           in (line # ls, b)))"
  by pat_completeness auto
termination
  by (relation "measure length") (auto dest: index_of_less)

declare drain.simps [simp del]

text \<open>One turn of the outer loop on a chunk read from the port (at most 128
  bytes): an empty chunk only sleeps.\<close>

definition feed :: "byte list \<Rightarrow> byte list \<Rightarrow> string list \<times> byte list" where
  "feed buf chunk = (if chunk \<noteq> [] then drain (buf @ chunk) else ([], buf))"

text \<open>The outer loop over the chunks the port delivers, from a given buffer.\<close>

fun assemble :: "byte list \<Rightarrow> byte list list \<Rightarrow> string list \<times> byte list" where
  "assemble buf [] = ([], buf)"
| "assemble buf (c # cs) =
     (let (ls, b) = feed buf c; (ls', b') = assemble b cs in (ls @ ls', b'))"


subsection \<open>Exceptions\<close>

datatype pyerr =
  RuntimeError | ValueError | TypeError | AttributeError | OverflowError | SerialException

subsection \<open>BrainstemSerial\<close>

text \<open>
  The port as the bridge sees it: whether \<open>self._ser\<close> is set, and every byte the
  device has accepted so far, in order.
\<close>

record serial_port =
  ser_open :: bool
  wire :: "byte list"

text \<open>The \<open>data\<close> of \<open>write_line\<close>:
  \<open>(line.rstrip("\n") + "\n").encode("ascii", errors="ignore")\<close>.\<close>

definition line_data :: "string \<Rightarrow> byte list" where
  "line_data line = ascii_encode_ignore (rstrip (CHR 0x0A) line @ [CHR 0x0A])"

text \<open>
  \<open>write_line\<close>. The flag \<open>wr_ok\<close> is the environment's answer to
  \<open>self._ser.write(data)\<close>: the device takes all of \<open>data\<close>, or the call raises
  and nothing is taken.
\<close>

definition write_line :: "bool \<Rightarrow> serial_port \<Rightarrow> string \<Rightarrow> pyerr + serial_port" where
  "write_line wr_ok p line =
     (if \<not> ser_open p then Inl RuntimeError
      else (let data = line_data line
            in if wr_ok then Inr (p\<lparr>wire := wire p @ data\<rparr>) else Inl SerialException))"

text \<open>\<open>read_lines\<close> on the chunks the port delivers: the buffer starts empty.\<close>

definition read_lines :: "serial_port \<Rightarrow> byte list list \<Rightarrow> pyerr + string list \<times> byte list" where
  "read_lines p chunks =
     (if \<not> ser_open p then Inl RuntimeError else Inr (assemble [] chunks))"

subsection \<open>Client messages and the Python built-ins\<close>

text \<open>
  What \<open>json.loads\<close> returns. A dict is an association list with distinct keys,
  in insertion order. The type \<open>'f\<close> is Python's \<open>float\<close>: floating point is not
  interpreted here, and the built-ins that produce or consume a float are
  parameters of the model.
\<close>

datatype 'f json =
  JNull | JBool bool | JInt int | JFloat 'f | JStr string
  | JArr "'f json list" | JObj "(string \<times> 'f json) list"

record 'f builtins =
  float_of_int :: "int \<Rightarrow> 'f option"
  float_of_str :: "string \<Rightarrow> 'f option"
  float_zero :: 'f
  float_truth :: "'f \<Rightarrow> bool"
  int_of_float :: "'f \<Rightarrow> pyerr + int"
  int_of_str :: "string \<Rightarrow> int option"
  format_3f :: "'f \<Rightarrow> string"

text \<open>\<open>float(v)\<close>: \<open>None\<close> of \<open>float_of_int\<close> is OverflowError, of \<open>float_of_str\<close>
  ValueError.\<close>

fun py_float :: "'f builtins \<Rightarrow> 'f json \<Rightarrow> pyerr + 'f" where
  "py_float B JNull = Inl TypeError"
| "py_float B (JBool b) =
     (case float_of_int B (if b then 1 else 0) of None \<Rightarrow> Inl OverflowError | Some x \<Rightarrow> Inr x)"
| "py_float B (JInt i) =
     (case float_of_int B i of None \<Rightarrow> Inl OverflowError | Some x \<Rightarrow> Inr x)"
| "py_float B (JFloat x) = Inr x"
| "py_float B (JStr s) =
     (case float_of_str B s of None \<Rightarrow> Inl ValueError | Some x \<Rightarrow> Inr x)"
| "py_float B (JArr xs) = Inl TypeError"
| "py_float B (JObj kv) = Inl TypeError"

text \<open>\<open>int(v)\<close>: \<open>None\<close> of \<open>int_of_str\<close> is ValueError.\<close>

fun py_int :: "'f builtins \<Rightarrow> 'f json \<Rightarrow> pyerr + int" where
  "py_int B JNull = Inl TypeError"
| "py_int B (JBool b) = Inr (if b then 1 else 0)"
| "py_int B (JInt i) = Inr i"
| "py_int B (JFloat x) = int_of_float B x"
| "py_int B (JStr s) = (case int_of_str B s of None \<Rightarrow> Inl ValueError | Some i \<Rightarrow> Inr i)"
| "py_int B (JArr xs) = Inl TypeError"
| "py_int B (JObj kv) = Inl TypeError"

text \<open>\<open>bool(v)\<close>: Python's truth value.\<close>

fun py_bool :: "'f builtins \<Rightarrow> 'f json \<Rightarrow> bool" where
  "py_bool B JNull = False"
| "py_bool B (JBool b) = b"
| "py_bool B (JInt i) = (i \<noteq> 0)"
| "py_bool B (JFloat x) = float_truth B x"
| "py_bool B (JStr s) = (s \<noteq> [])"
| "py_bool B (JArr xs) = (xs \<noteq> [])"
| "py_bool B (JObj kv) = (kv \<noteq> [])"

text \<open>\<open>d.get(k, default)\<close>.\<close>

definition dict_get :: "(string \<times> 'v) list \<Rightarrow> string \<Rightarrow> 'v \<Rightarrow> 'v" where
  "dict_get kv k d = (case map_of kv k of None \<Rightarrow> d | Some v \<Rightarrow> v)"

text \<open>An integer in an f-string: decimal digits, a minus sign when negative.\<close>

definition digit_char :: "nat \<Rightarrow> char" where
  "digit_char d = char_of (48 + d)"

fun str_nat :: "nat \<Rightarrow> string" where
  "str_nat n = (if n < 10 then [digit_char n] else str_nat (n div 10) @ [digit_char (n mod 10)])"

declare str_nat.simps [simp del]

definition str_int :: "int \<Rightarrow> string" where
  "str_int i = (if i < 0 then CHR ''-'' # str_nat (nat (- i)) else str_nat (nat i))"

subsection \<open>TeleopServer\<close>

type_synonym ws = nat

text \<open>The two \<open>print\<close> calls, by direction, with the line they print.\<close>

datatype log_line = WsToSerial string | SerialToWs string

text \<open>
  The fields of \<open>TeleopServer\<close> (the start time left out), with what leaves the
  process: \<open>inbox w\<close> holds the payloads session \<open>w\<close> has received, as the objects
  given to \<open>json.dumps\<close>, and \<open>stdout\<close> the printed lines. \<open>ws_clients\<close> is the set
  of sessions, as a list without repetition: \<open>list(self.ws_clients)\<close> is that list.
\<close>

record 'f server =
  serial :: serial_port
  ws_clients :: "ws list"
  seq :: int
  tx_count :: int
  rx_count :: int
  last_tx :: "string option"
  last_rx :: "string option"
  inbox :: "ws \<Rightarrow> 'f json list"
  stdout :: "log_line list"

text \<open>\<open>__init__\<close> and \<open>start\<close> (with the port opening).\<close>

definition new_server :: "'f server" where
  "new_server =
     \<lparr>serial = \<lparr>ser_open = False, wire = []\<rparr>, ws_clients = [], seq = 1, tx_count = 0,
      rx_count = 0, last_tx = None, last_rx = None, inbox = (\<lambda>w. []), stdout = []\<rparr>"

definition start :: "'f server \<Rightarrow> 'f server" where
  "start s = s\<lparr>serial := (serial s)\<lparr>ser_open := True\<rparr>\<rparr>"

text \<open>\<open>self.ws_clients.add(ws)\<close> and \<open>self.ws_clients.discard(ws)\<close>.\<close>

definition add_client :: "ws \<Rightarrow> 'f server \<Rightarrow> 'f server" where
  "add_client w s = s\<lparr>ws_clients := (if w \<in> set (ws_clients s) then ws_clients s else ws_clients s @ [w])\<rparr>"

definition discard :: "ws \<Rightarrow> ws list \<Rightarrow> ws list" where
  "discard w cs = removeAll w cs"

text \<open>
  What the environment decides during one step: whether the device write
  returns, and for which sessions \<open>send_str\<close> returns.
\<close>

record env =
  write_ok :: bool
  send_ok :: "ws \<Rightarrow> bool"

text \<open>The echo loop of \<open>handle_msg\<close>: a failed send is passed over.\<close>

fun echo_all ::
  "(ws \<Rightarrow> bool) \<Rightarrow> 'f json \<Rightarrow> ws list \<Rightarrow> (ws \<Rightarrow> 'f json list) \<Rightarrow> (ws \<Rightarrow> 'f json list)" where
  "echo_all ok p [] ib = ib"
| "echo_all ok p (w # cs) ib = echo_all ok p cs (if ok w then ib(w := ib w @ [p]) else ib)"

text \<open>
  The block each branch of \<open>handle_msg\<close> ends with: print the line, try to write
  it and count it, and in the \<open>finally\<close> part echo it to every session; an
  exception of the write leaves after the echo.
\<close>

definition transmit :: "env \<Rightarrow> 'f server \<Rightarrow> string \<Rightarrow> 'f server \<times> pyerr option" where
  "transmit E s line =
     (let s1 = s\<lparr>stdout := stdout s @ [WsToSerial line]\<rparr>;
          (s2, err) =
            (case write_line (write_ok E) (serial s1) line of
               Inl e \<Rightarrow> (s1, Some e)
             | Inr p \<Rightarrow> (s1\<lparr>serial := p, tx_count := tx_count s1 + 1, last_tx := Some line\<rparr>, None));
          payload = JObj [(''type'', JStr ''tx''), (''line'', JStr line)]
      in (s2\<lparr>inbox := echo_all (send_ok E) payload (ws_clients s2) (inbox s2)\<rparr>, err))"

text \<open>
  \<open>handle_msg\<close>. The argument is the outcome of \<open>json.loads(data)\<close>, \<open>None\<close> when
  it raises. The result is the state left and the exception that leaves the
  call, if any.
\<close>

definition handle_msg ::
  "'f builtins \<Rightarrow> env \<Rightarrow> 'f server \<Rightarrow> 'f json option \<Rightarrow> 'f server \<times> pyerr option" where
  "handle_msg B E s data =
     (case data of
        None \<Rightarrow> (s, None)
      | Some (JObj msg) \<Rightarrow>
          (let t = dict_get msg ''type'' JNull in
           if t = JStr ''twist'' then
             (case py_float B (dict_get msg ''vx'' (JFloat (float_zero B))) of
                Inl e \<Rightarrow> (s, Some e)
              | Inr vx \<Rightarrow>
                  (case py_float B (dict_get msg ''wz'' (JFloat (float_zero B))) of
                     Inl e \<Rightarrow> (s, Some e)
                   | Inr wz \<Rightarrow>
                       (let s1 = s\<lparr>seq := (seq s + 1) AND 0xFFFFFFFF\<rparr>;
                            line = ''TWIST,'' @ format_3f B vx @ '','' @ format_3f B wz
                                   @ '','' @ str_int (seq s1)
                        in transmit E s1 line)))
           else if t = JStr ''safe'' then
             (let v = (if py_bool B (dict_get msg ''enable'' (JBool True)) then 1 else 0);
                  line = ''SAFE,'' @ str_int v
              in transmit E s line)
           else if t = JStr ''ping'' then
             (let s1 = s\<lparr>seq := (seq s + 1) AND 0xFFFFFFFF\<rparr>;
                  line = ''PING,'' @ str_int (seq s1)
              in transmit E s1 line)
           else if t = JStr ''led'' then
             (let mask = (case py_int B (dict_get msg ''mask'' (JInt 0)) of
                            Inl e \<Rightarrow> 0 | Inr i \<Rightarrow> i);
                  line = ''LED,'' @ str_int mask
              in transmit E s line)
           else (s, None))
      | Some _ \<Rightarrow> (s, Some AttributeError))"

text \<open>
  The messages of all sessions in the order they are handled, each with the
  environment of its step. An exception ends the session of its sender only,
  the server goes on with the state left.
\<close>

fun handle_msgs ::
  "'f builtins \<Rightarrow> 'f server \<Rightarrow> (env \<times> 'f json option) list \<Rightarrow> 'f server" where
  "handle_msgs B s [] = s"
| "handle_msgs B s ((E, d) # ms) = handle_msgs B (fst (handle_msg B E s d)) ms"

text \<open>The send loop of \<open>telemetry_task\<close>: a failed send puts the session on \<open>dead\<close>.\<close>

fun send_all ::
  "(ws \<Rightarrow> bool) \<Rightarrow> 'f json \<Rightarrow> ws list \<Rightarrow> (ws \<Rightarrow> 'f json list) \<times> ws list
     \<Rightarrow> (ws \<Rightarrow> 'f json list) \<times> ws list" where
  "send_all ok p [] (ib, dead) = (ib, dead)"
| "send_all ok p (w # cs) (ib, dead) =
     send_all ok p cs (if ok w then (ib(w := ib w @ [p]), dead) else (ib, dead @ [w]))"

text \<open>The body of the loop of \<open>telemetry_task\<close>, for one line of the device.\<close>

definition telemetry_line :: "(ws \<Rightarrow> bool) \<Rightarrow> 'f server \<Rightarrow> string \<Rightarrow> 'f server" where
  "telemetry_line ok s line =
     (let s1 = s\<lparr>stdout := stdout s @ [SerialToWs line], rx_count := rx_count s + 1,
                 last_rx := Some line\<rparr>
      in if ws_clients s1 = [] then s1
         else (let payload = JObj [(''type'', JStr ''rx''), (''line'', JStr line)];
                   (ib, dead) = send_all ok payload (ws_clients s1) (inbox s1, [])
               in s1\<lparr>inbox := ib, ws_clients := fold discard dead (ws_clients s1)\<rparr>))"

text \<open>
  The receive loop of \<open>ws_handler\<close> for session \<open>w\<close>, on the text messages it
  reads: an exception of \<open>handle_msg\<close> leaves the loop, the \<open>finally\<close> part
  discards the session, and the messages after it are not handled.
\<close>

fun ws_receive ::
  "'f builtins \<Rightarrow> ws \<Rightarrow> 'f server \<Rightarrow> (env \<times> 'f json option) list \<Rightarrow> 'f server \<times> pyerr option" where
  "ws_receive B w s [] = (s\<lparr>ws_clients := discard w (ws_clients s)\<rparr>, None)"
| "ws_receive B w s ((E, d) # ms) =
     (case handle_msg B E s d of
        (s', Some e) \<Rightarrow> (s'\<lparr>ws_clients := discard w (ws_clients s')\<rparr>, Some e)
      | (s', None) \<Rightarrow> ws_receive B w s' ms)"

subsection \<open>Reading the printed lines\<close>

text \<open>
  The lines printed towards the device that start with \<open>TWIST,\<close> or \<open>PING,\<close>, in
  order, and the last comma-separated field of a line.
\<close>

fun seq_lines :: "log_line list \<Rightarrow> string list" where
  "seq_lines [] = []"
| "seq_lines (WsToSerial l # log) =
     (if take 6 l = ''TWIST,'' \<or> take 5 l = ''PING,'' then l # seq_lines log else seq_lines log)"
| "seq_lines (SerialToWs l # log) = seq_lines log"

definition last_field :: "string \<Rightarrow> string" where
  "last_field l = rev (takeWhile (\<lambda>c. c \<noteq> CHR '','') (rev l))"

subsection \<open>A sample interpretation of the built-ins\<close>

text \<open>
  For running the model on concrete messages: the floats are the whole numbers,
  printed with three zero decimals, and no string is a numeral.
\<close>

definition sample_builtins :: "int builtins" where
  "sample_builtins =
     \<lparr>float_of_int = (\<lambda>i. Some i), float_of_str = (\<lambda>s. None), float_zero = 0,
      float_truth = (\<lambda>x. x \<noteq> 0), int_of_float = (\<lambda>x. Inr x), int_of_str = (\<lambda>s. None),
      format_3f = (\<lambda>x. str_int x @ ''.000'')\<rparr>"

section \<open>Line assembly\<close>

subsection \<open>The inner loop on a buffer\<close>

lemma index_of_None_iff: "index_of x xs = None \<longleftrightarrow> x \<notin> set xs"
  by (induction xs) (auto split: option.splits)

lemma index_of_first: "x \<notin> set l \<Longrightarrow> index_of x (l @ x # ys) = Some (length l)"
  by (induction l) auto

lemma drain_no_LF: "LF \<notin> set buf \<Longrightarrow> drain buf = ([], buf)"
  by (subst drain.simps) (simp add: index_of_None_iff [THEN iffD2])

lemma drain_line:
  "LF \<notin> set l \<Longrightarrow>
   drain (l @ LF # rest) =
     (rstrip (CHR 0x0D) (ascii_decode_ignore l) # fst (drain rest), snd (drain rest))"
  by (subst drain.simps) (simp add: index_of_first split: prod.splits)

lemma drain_lines:
  "\<forall>l\<in>set ls. LF \<notin> set l \<Longrightarrow> LF \<notin> set tail \<Longrightarrow>
   drain (concat (map (\<lambda>l. l @ [LF]) ls) @ tail) =
     (map (\<lambda>l. rstrip (CHR 0x0D) (ascii_decode_ignore l)) ls, tail)"
  by (induction ls) (simp_all add: drain_no_LF drain_line)

lemma split_first_LF:
  "LF \<in> set xs \<Longrightarrow> \<exists>l rest. xs = l @ LF # rest \<and> LF \<notin> set l"
  by (metis split_list_first)

lemma drain_snd_no_LF: "LF \<notin> set (snd (drain buf))"
proof (induction buf rule: length_induct)
  case (1 buf)
  show ?case
  proof (cases "LF \<in> set buf")
    case False
    then show ?thesis by (simp add: drain_no_LF)
  next
    case True
    then obtain l rest where b: "buf = l @ LF # rest" and l: "LF \<notin> set l"
      using split_first_LF by blast
    have "length rest < length buf" using b by simp
    with 1 have "LF \<notin> set (snd (drain rest))" by blast
    then show ?thesis using b l by (simp add: drain_line)
  qed
qed

lemma drain_append:
  "drain (xs @ ys) = (fst (drain xs) @ fst (drain (snd (drain xs) @ ys)),
                      snd (drain (snd (drain xs) @ ys)))"
proof (induction xs rule: length_induct)
  case (1 xs)
  show ?case
  proof (cases "LF \<in> set xs")
    case False
    then show ?thesis by (simp add: drain_no_LF)
  next
    case True
    then obtain l rest where b: "xs = l @ LF # rest" and l: "LF \<notin> set l"
      using split_first_LF by blast
    have "length rest < length xs" using b by simp
    with 1 have ih: "drain (rest @ ys) = (fst (drain rest) @ fst (drain (snd (drain rest) @ ys)),
                      snd (drain (snd (drain rest) @ ys)))" by blast
    show ?thesis using l by (simp add: b drain_line ih)
  qed
qed

lemma assemble_drain:
  "LF \<notin> set buf \<Longrightarrow> assemble buf cs = drain (buf @ concat cs)"
proof (induction cs arbitrary: buf)
  case Nil
  then show ?case by (simp add: drain_no_LF)
next
  case (Cons c cs)
  show ?case
  proof (cases "c = []")
    case True
    then show ?thesis using Cons by (simp add: feed_def)
  next
    case False
    have "LF \<notin> set (snd (drain (buf @ c)))" by (rule drain_snd_no_LF)
    then have "assemble (snd (drain (buf @ c))) cs = drain (snd (drain (buf @ c)) @ concat cs)"
      by (rule Cons.IH)
    then show ?thesis using False
      by (simp add: feed_def split: prod.splits)
         (metis append.assoc drain_append fst_conv snd_conv)
  qed
qed

lemma decode_clean:
  "\<forall>b\<in>set l. b < 0x80 \<Longrightarrow> ascii_decode_ignore l = map (\<lambda>b. char_of (unat b)) l"
  by (simp add: ascii_decode_ignore_def)

lemma rstrip_id: "s = [] \<or> last s \<noteq> c \<Longrightarrow> rstrip c s = s"
  by (cases s rule: rev_cases) (auto simp: rstrip_def)


lemma char_of_byte_CR: "char_of (unat (b::byte)) = CHR 0x0D \<longleftrightarrow> b = CR"
proof -
  have c: "char_of (13::nat) = CHR 0x0D"
    by (simp add: char_of_eq_iff)
  have lt: "unat b < 256"
    using unsigned_less [of b] by simp
  have "char_of (unat b) = char_of (13::nat) \<longleftrightarrow> unat b mod 256 = 13 mod 256"
    by (rule char_of_quasi_inj)
  also have "\<dots> \<longleftrightarrow> unat b = 13"
    using lt by simp
  also have "\<dots> \<longleftrightarrow> unat b = unat CR"
    by simp
  also have "\<dots> \<longleftrightarrow> b = CR"
    by (rule word_unat_eq_iff [symmetric])
  finally show ?thesis
    by (simp only: c)
qed

lemma assemble_lines:
  assumes "\<forall>l\<in>set ls. LF \<notin> set l"
    and "LF \<notin> set tail"
    and "concat chunks = concat (map (\<lambda>l. l @ [LF]) ls) @ tail"
  shows "assemble [] chunks = (map (\<lambda>l. rstrip (CHR 0x0D) (ascii_decode_ignore l)) ls, tail)"
proof -
  have "assemble [] chunks = drain (concat chunks)"
    using assemble_drain [of "[]" chunks] by simp
  with assms show ?thesis
    by (simp add: drain_lines)
qed

lemma rstrip_decomp:
  "\<exists>k. s = rstrip c s @ replicate k c \<and> (rstrip c s = [] \<or> last (rstrip c s) \<noteq> c)"
proof -
  let ?t = "takeWhile (\<lambda>x. x = c) (rev s)"
  let ?d = "dropWhile (\<lambda>x. x = c) (rev s)"
  have "rev s = ?t @ ?d" by simp
  then have "s = rev ?d @ rev ?t" by (metis rev_append rev_rev_ident)
  moreover have "\<forall>x\<in>set (rev ?t). x = c"
    by (auto dest: set_takeWhileD)
  then have "rev ?t = replicate (length (rev ?t)) c"
    by (metis replicate_length_same)
  moreover have "rev ?d = [] \<or> last (rev ?d) \<noteq> c"
    using hd_dropWhile [of "\<lambda>x. x = c" "rev s"] by (auto simp: last_rev)
  ultimately show ?thesis
    unfolding rstrip_def by metis
qed

lemma rstrip_append_same: "rstrip c (s @ [c]) = rstrip c s"
  by (simp add: rstrip_def)

lemma encode_LF: "ascii_encode_ignore (t @ [CHR 0x0A]) = ascii_encode_ignore t @ [LF]"
  by (simp add: ascii_encode_ignore_def is_ascii_def)

lemma encode_clean: "list_all is_ascii t \<Longrightarrow> ascii_encode_ignore t = map of_char t"
  by (simp add: ascii_encode_ignore_def list_all_iff)

subsection \<open>Chunk boundaries\<close>

text \<open>
  C1. Let the chunks read from an open port concatenate to the lines \<open>ls\<close>, each
  followed by 0x0A, and then a rest \<open>tail\<close> without 0x0A. Wherever the chunk
  boundaries fall (inside a line, after several lines, between a line's end and
  the start of the next, empty chunks between), the reader yields one line for
  each member of \<open>ls\<close>, in order, each decoded and without its trailing carriage
  returns, and \<open>tail\<close> stays in the buffer for the next read. When the lines are
  ASCII and do not end in a carriage return, the yielded lines are the lines
  sent, character by character.
\<close>

theorem read_lines_chunking:
  assumes "ser_open p"
    and "\<forall>l\<in>set ls. LF \<notin> set l"
    and "LF \<notin> set tail"
    and "concat chunks = concat (map (\<lambda>l. l @ [LF]) ls) @ tail"
  shows "read_lines p chunks =
           Inr (map (\<lambda>l. rstrip (CHR 0x0D) (ascii_decode_ignore l)) ls, tail)
         \<and> ((\<forall>l\<in>set ls. (\<forall>b\<in>set l. b < 0x80) \<and> (l = [] \<or> last l \<noteq> CR)) \<longrightarrow>
              read_lines p chunks = Inr (map (map (\<lambda>b. char_of (unat b))) ls, tail))"
proof -
  have main: "read_lines p chunks =
      Inr (map (\<lambda>l. rstrip (CHR 0x0D) (ascii_decode_ignore l)) ls, tail)"
    using assms by (simp add: read_lines_def assemble_lines)
  have "map (\<lambda>l. rstrip (CHR 0x0D) (ascii_decode_ignore l)) ls
          = map (map (\<lambda>b. char_of (unat b))) ls"
    if clean: "\<forall>l\<in>set ls. (\<forall>b\<in>set l. b < 0x80) \<and> (l = [] \<or> last l \<noteq> CR)"
  proof (rule map_cong [OF refl])
    fix l assume l: "l \<in> set ls"
    then have a: "\<forall>b\<in>set l. b < 0x80" and c: "l = [] \<or> last l \<noteq> CR"
      using clean by auto
    have "map (\<lambda>b. char_of (unat b)) l = [] \<or> last (map (\<lambda>b. char_of (unat b)) l) \<noteq> CHR 0x0D"
      using c by (cases l rule: rev_cases) (auto simp: char_of_byte_CR)
    then show "rstrip (CHR 0x0D) (ascii_decode_ignore l) = map (\<lambda>b. char_of (unat b)) l"
      using a by (simp add: decode_clean rstrip_id)
  qed
  with main show ?thesis by simp
qed

theorem read_lines_chunking_witness:
  "read_lines \<lparr>ser_open = True, wire = []\<rparr>
      [[0x61, 0x62], [LF, 0x63, CR, LF, 0x64], [], [0x65, LF, 0x66]]
     = Inr ([''ab'', ''c'', ''de''], [0x66])
   \<and> read_lines \<lparr>ser_open = True, wire = []\<rparr> [[0x61], [0x62, LF, LF, 0x63], [0x64, LF]]
     = Inr ([''ab'', [], ''cd''], [])"
  using read_lines_chunking [of "\<lparr>ser_open = True, wire = []\<rparr>"
      "[[0x61, 0x62], [0x63, CR], [0x64, 0x65]]" "[0x66]"
      "[[0x61, 0x62], [LF, 0x63, CR, LF, 0x64], [], [0x65, LF, 0x66]]"]
    read_lines_chunking [of "\<lparr>ser_open = True, wire = []\<rparr>"
      "[[0x61, 0x62], [], [0x63, 0x64]]" "[]" "[[0x61], [0x62, LF, LF, 0x63], [0x64, LF]]"]
  by (simp add: rstrip_def ascii_decode_ignore_def char_of_eq_iff)

subsection \<open>Carriage returns\<close>

text \<open>
  C6, as the code has it. A line that ends in two carriage returns loses both:
  \<open>rstrip\<close> takes every trailing one, not a single one.
\<close>

theorem read_lines_two_cr_counterexample:
  "read_lines \<lparr>ser_open = True, wire = []\<rparr> [[0x61, CR, CR, LF]] = Inr ([''a''], [])
   \<and> butlast (ascii_decode_ignore [0x61, CR, CR]) = [CHR ''a'', CHR 0x0D]"
  by (simp add: read_lines_def feed_def drain.simps rstrip_def ascii_decode_ignore_def char_of_eq_iff)

text \<open>
  C6, amended. For the bytes \<open>l\<close> of a line, the line yielded is the decoded text
  of \<open>l\<close> without all its trailing carriage returns: the text is the yielded
  line followed by carriage returns only, and the yielded line does not end in
  one. A line ended by CR LF and the same line ended by LF yield the same.
\<close>

theorem read_lines_strips_cr:
  assumes "ser_open p" and "LF \<notin> set l"
  shows "read_lines p [l @ [CR, LF]] = read_lines p [l @ [LF]]
         \<and> (\<exists>y k. read_lines p [l @ [LF]] = Inr ([y], [])
               \<and> ascii_decode_ignore l = y @ replicate k (CHR 0x0D)
               \<and> (y = [] \<or> last y \<noteq> CHR 0x0D))"
proof -
  let ?y = "rstrip (CHR 0x0D) (ascii_decode_ignore l)"
  obtain k where k: "ascii_decode_ignore l = ?y @ replicate k (CHR 0x0D)"
      and e: "?y = [] \<or> last ?y \<noteq> CHR 0x0D"
    using rstrip_decomp [of "ascii_decode_ignore l" "CHR 0x0D"] by blast
  have one: "read_lines p [l @ [LF]] = Inr ([?y], [])"
    using assms assemble_lines [of "[l]" "[]" "[l @ [LF]]"] by (simp add: read_lines_def)
  have "LF \<notin> set (l @ [CR])" using assms by simp
  then have "read_lines p [(l @ [CR]) @ [LF]]
      = Inr ([rstrip (CHR 0x0D) (ascii_decode_ignore (l @ [CR]))], [])"
    using assms assemble_lines [of "[l @ [CR]]" "[]" "[(l @ [CR]) @ [LF]]"] by (simp add: read_lines_def)
  moreover have "ascii_decode_ignore (l @ [CR]) = ascii_decode_ignore l @ [CHR 0x0D]"
    by (simp add: ascii_decode_ignore_def char_of_eq_iff)
  ultimately have two: "read_lines p [l @ [CR, LF]] = Inr ([?y], [])"
    by (simp add: rstrip_append_same)
  from one k e two show ?thesis by metis
qed

theorem read_lines_strips_cr_witness:
  "read_lines \<lparr>ser_open = True, wire = []\<rparr> [[0x4F, 0x4B, LF]] = Inr ([''OK''], [])
   \<and> read_lines \<lparr>ser_open = True, wire = []\<rparr> [[0x4F, 0x4B, CR, LF]] = Inr ([''OK''], [])"
  using read_lines_strips_cr [of "\<lparr>ser_open = True, wire = []\<rparr>" "[0x4F, 0x4B]"]
  by (simp add: read_lines_def feed_def drain.simps rstrip_def ascii_decode_ignore_def char_of_eq_iff)

section \<open>Writing a line\<close>

text \<open>
  C7, as the code has it. A text that ends in a newline is written with that
  newline only, not with a second one, and a character outside ASCII is not
  written at all: in both cases the bytes on the wire are not the bytes of the
  text with a newline appended.
\<close>

theorem write_line_newline_counterexample:
  "write_line True \<lparr>ser_open = True, wire = []\<rparr> [CHR ''a'', CHR 0x0A]
     = Inr \<lparr>ser_open = True, wire = [0x61, LF]\<rparr>
   \<and> map of_char [CHR ''a'', CHR 0x0A] @ [LF] = [0x61, LF, LF]
   \<and> write_line True \<lparr>ser_open = True, wire = []\<rparr> [CHR ''a'', CHR 0xE9]
     = Inr \<lparr>ser_open = True, wire = [0x61, LF]\<rparr>
   \<and> map of_char [CHR ''a'', CHR 0xE9] @ [LF] = [0x61, 0xE9, LF]"
  by (simp add: write_line_def line_data_def rstrip_def ascii_encode_ignore_def is_ascii_def)

text \<open>
  C7, amended. On an open port whose device takes the write, \<open>write_line\<close> writes
  the text without its trailing newlines and without its non-ASCII characters,
  and one newline after it. For an ASCII text that does not end in a newline
  these are the bytes of the text and one newline.
\<close>

theorem write_line_bytes:
  assumes "ser_open p" and "wr_ok"
  shows "(\<exists>t k. line = t @ replicate k (CHR 0x0A) \<and> (t = [] \<or> last t \<noteq> CHR 0x0A)
            \<and> write_line wr_ok p line = Inr (p\<lparr>wire := wire p @ ascii_encode_ignore t @ [LF]\<rparr>))
         \<and> (list_all is_ascii line \<and> (line = [] \<or> last line \<noteq> CHR 0x0A) \<longrightarrow>
              write_line wr_ok p line = Inr (p\<lparr>wire := wire p @ map of_char line @ [LF]\<rparr>))"
proof -
  let ?t = "rstrip (CHR 0x0A) line"
  have w: "write_line wr_ok p line = Inr (p\<lparr>wire := wire p @ ascii_encode_ignore ?t @ [LF]\<rparr>)"
    using assms by (simp add: write_line_def line_data_def encode_LF)
  obtain k where "line = ?t @ replicate k (CHR 0x0A)" and "?t = [] \<or> last ?t \<noteq> CHR 0x0A"
    using rstrip_decomp [of line "CHR 0x0A"] by blast
  with w have first: "\<exists>t k. line = t @ replicate k (CHR 0x0A) \<and> (t = [] \<or> last t \<noteq> CHR 0x0A)
            \<and> write_line wr_ok p line = Inr (p\<lparr>wire := wire p @ ascii_encode_ignore t @ [LF]\<rparr>)"
    by blast
  have "write_line wr_ok p line = Inr (p\<lparr>wire := wire p @ map of_char line @ [LF]\<rparr>)"
    if "list_all is_ascii line" and "line = [] \<or> last line \<noteq> CHR 0x0A"
    using that w by (simp add: rstrip_id encode_clean)
  with first show ?thesis by blast
qed

theorem write_line_bytes_witness:
  "write_line True \<lparr>ser_open = True, wire = [0x58, LF]\<rparr> ''PING,7''
     = Inr \<lparr>ser_open = True, wire = [0x58, LF, 0x50, 0x49, 0x4E, 0x47, 0x2C, 0x37, LF]\<rparr>"
  using write_line_bytes [of "\<lparr>ser_open = True, wire = [0x58, LF]\<rparr>" True "''PING,7''"]
  by (simp add: is_ascii_def)

section \<open>Integers in lines\<close>

lemma and_mask32: "(x::int) AND 0xFFFFFFFF = x mod 2 ^ 32"
proof -
  have "(0xFFFFFFFF::int) = mask 32" by (simp add: mask_eq_exp_minus_1)
  then show ?thesis by (simp only: take_bit_eq_mask [symmetric] take_bit_eq_mod)
qed

lemma digit_char_ascii: "d < 10 \<Longrightarrow> is_ascii (digit_char d)"
  by (simp add: is_ascii_def digit_char_def)

lemma digit_char_of_char: "d < 10 \<Longrightarrow> (of_char (digit_char d) :: nat) = 48 + d"
  by (simp add: digit_char_def)

lemma str_nat_digits: "c \<in> set (str_nat n) \<Longrightarrow> \<exists>d<10. c = digit_char d"
proof (induction n rule: str_nat.induct)
  case (1 n)
  show ?case
  proof (cases "n < 10")
    case True
    with "1.prems" show ?thesis by (subst (asm) str_nat.simps) auto
  next
    case False
    with "1.prems" have "c \<in> set (str_nat (n div 10)) \<or> c = digit_char (n mod 10)"
      by (subst (asm) str_nat.simps) auto
    then show ?thesis
    proof
      assume "c \<in> set (str_nat (n div 10))"
      with False "1.IH" show ?thesis by blast
    next
      assume "c = digit_char (n mod 10)"
      moreover have "n mod 10 < 10" by simp
      ultimately show ?thesis by blast
    qed
  qed
qed

lemma str_nat_nonempty: "str_nat n \<noteq> []"
  by (subst str_nat.simps) simp

lemma str_nat_last: "\<exists>d<10. last (str_nat n) = digit_char d"
  using str_nat_digits [of "last (str_nat n)" n] str_nat_nonempty [of n] by simp

lemma str_int_nonempty: "str_int i \<noteq> []"
  by (simp add: str_int_def str_nat_nonempty)

lemma str_int_chars: "c \<in> set (str_int i) \<Longrightarrow> c = CHR ''-'' \<or> (\<exists>d<10. c = digit_char d)"
  by (auto simp: str_int_def dest: str_nat_digits split: if_splits)

lemma str_int_last: "\<exists>d<10. last (str_int i) = digit_char d"
  using str_nat_last by (simp add: str_int_def str_nat_nonempty)

lemma str_int_ascii: "list_all is_ascii (str_int i)"
  by (auto simp: list_all_iff is_ascii_def digit_char_def dest!: str_int_chars)

lemma digit_char_not_LF: "d < 10 \<Longrightarrow> digit_char d \<noteq> CHR 0x0A"
  using digit_char_of_char [of d] by auto

lemma digit_char_not_comma: "d < 10 \<Longrightarrow> digit_char d \<noteq> CHR '',''"
  using digit_char_of_char [of d] by auto

lemma str_int_no_comma: "CHR '','' \<notin> set (str_int i)"
proof
  assume "CHR '','' \<in> set (str_int i)"
  then obtain d where "d < 10" and "CHR '','' = digit_char d"
    using str_int_chars [of "CHR '',''" i] by auto
  then show False
    using digit_char_not_comma [of d] by simp
qed

text \<open>A line that ends in a rendered integer has no newline to strip.\<close>

lemma line_data_int:
  "line_data (pre @ str_int i) = ascii_encode_ignore pre @ map of_char (str_int i) @ [LF]"
proof -
  obtain d where "d < 10" and "last (str_int i) = digit_char d"
    using str_int_last by blast
  then have "last (pre @ str_int i) \<noteq> CHR 0x0A"
    using digit_char_not_LF by (simp add: str_int_nonempty)
  then have "rstrip (CHR 0x0A) (pre @ str_int i) = pre @ str_int i"
    by (simp add: rstrip_id)
  moreover have "ascii_encode_ignore (pre @ str_int i)
      = ascii_encode_ignore pre @ map of_char (str_int i)"
    using encode_clean [OF str_int_ascii, of i] by (simp add: ascii_encode_ignore_def)
  ultimately have "line_data (pre @ str_int i)
      = ascii_encode_ignore ((pre @ str_int i) @ [CHR 0x0A])"
    and "ascii_encode_ignore ((pre @ str_int i) @ [CHR 0x0A])
      = (ascii_encode_ignore pre @ map of_char (str_int i)) @ [LF]"
    by (simp_all only: line_data_def encode_LF)
  then show ?thesis
    by simp
qed

lemma str_nat_numeral:
  "str_nat (numeral k) =
     (if (numeral k :: nat) < 10 then [digit_char (numeral k)]
      else str_nat (numeral k div 10) @ [digit_char (numeral k mod 10)])"
  by (rule str_nat.simps)

lemma str_nat_0: "str_nat 0 = ''0''"
  by (subst str_nat.simps) (simp add: digit_char_def char_of_eq_iff)

lemma str_nat_1: "str_nat 1 = ''1''" "str_nat (Suc 0) = ''1''"
  by (subst str_nat.simps, simp add: digit_char_def char_of_eq_iff)+

lemma digit_chars:
  "digit_char 0 = CHR ''0''" "digit_char 1 = CHR ''1''" "digit_char 2 = CHR ''2''"
  "digit_char 3 = CHR ''3''" "digit_char 4 = CHR ''4''" "digit_char 5 = CHR ''5''"
  "digit_char 6 = CHR ''6''" "digit_char 7 = CHR ''7''" "digit_char 8 = CHR ''8''"
  "digit_char 9 = CHR ''9''" "digit_char (Suc 0) = CHR ''1''"
  by (simp_all add: digit_char_def char_of_eq_iff)

lemmas run_defs =
  start_def new_server_def sample_builtins_def handle_msg_def dict_get_def transmit_def
  write_line_def line_data_def rstrip_def ascii_encode_ignore_def is_ascii_def str_int_def
  str_nat_numeral str_nat_0 str_nat_1 digit_chars Let_def

lemma str_int_0: "str_int 0 = ''0''"
  by (simp add: str_int_def str_nat_0)

lemma str_int_1: "str_int 1 = ''1''"
  by (simp add: str_int_def str_nat_1)

section \<open>Handling a client message\<close>

subsection \<open>The write and echo block\<close>

lemma echo_all_other: "w \<notin> set cs \<Longrightarrow> echo_all ok p cs ib w = ib w"
  by (induction cs arbitrary: ib) auto

lemma echo_all_member:
  "distinct cs \<Longrightarrow> w \<in> set cs \<Longrightarrow>
   echo_all ok p cs ib w = (if ok w then ib w @ [p] else ib w)"
  by (induction cs arbitrary: ib) (auto simp: echo_all_other)

lemma transmit_ok:
  "ser_open (serial s) \<Longrightarrow> write_ok E \<Longrightarrow>
   transmit E s line =
     (s\<lparr>stdout := stdout s @ [WsToSerial line],
        serial := (serial s)\<lparr>wire := wire (serial s) @ line_data line\<rparr>,
        tx_count := tx_count s + 1, last_tx := Some line,
        inbox := echo_all (send_ok E) (JObj [(''type'', JStr ''tx''), (''line'', JStr line)])
                   (ws_clients s) (inbox s)\<rparr>, None)"
  by (simp add: transmit_def write_line_def)

lemma transmit_fail:
  "\<not> ser_open (serial s) \<or> \<not> write_ok E \<Longrightarrow>
   transmit E s line =
     (s\<lparr>stdout := stdout s @ [WsToSerial line],
        inbox := echo_all (send_ok E) (JObj [(''type'', JStr ''tx''), (''line'', JStr line)])
                   (ws_clients s) (inbox s)\<rparr>,
      Some (if \<not> ser_open (serial s) then RuntimeError else SerialException))"
  by (auto simp: transmit_def write_line_def)

lemma transmit_seq: "seq (fst (transmit E s line)) = seq s"
  by (simp add: transmit_def Let_def split: sum.splits prod.splits)

lemma transmit_stdout: "stdout (fst (transmit E s line)) = stdout s @ [WsToSerial line]"
  by (simp add: transmit_def Let_def split: sum.splits prod.splits)

subsection \<open>The branches of \<open>handle_msg\<close>\<close>

lemma handle_twist:
  assumes "map_of msg ''type'' = Some (JStr ''twist'')"
    and "py_float B (dict_get msg ''vx'' (JFloat (float_zero B))) = Inr x"
    and "py_float B (dict_get msg ''wz'' (JFloat (float_zero B))) = Inr y"
  shows "handle_msg B E s (Some (JObj msg)) =
           transmit E (s\<lparr>seq := (seq s + 1) mod 2 ^ 32\<rparr>)
             (''TWIST,'' @ format_3f B x @ '','' @ format_3f B y @ '',''
                @ str_int ((seq s + 1) mod 2 ^ 32))"
  using assms by (simp add: handle_msg_def dict_get_def [of msg "''type''"] Let_def and_mask32)

lemma handle_twist_bad_vx:
  assumes "map_of msg ''type'' = Some (JStr ''twist'')"
    and "py_float B (dict_get msg ''vx'' (JFloat (float_zero B))) = Inl e"
  shows "handle_msg B E s (Some (JObj msg)) = (s, Some e)"
  using assms by (simp add: handle_msg_def dict_get_def [of msg "''type''"] Let_def)

lemma handle_twist_bad_wz:
  assumes "map_of msg ''type'' = Some (JStr ''twist'')"
    and "py_float B (dict_get msg ''vx'' (JFloat (float_zero B))) = Inr x"
    and "py_float B (dict_get msg ''wz'' (JFloat (float_zero B))) = Inl e"
  shows "handle_msg B E s (Some (JObj msg)) = (s, Some e)"
  using assms by (simp add: handle_msg_def dict_get_def [of msg "''type''"] Let_def)

lemma handle_safe:
  assumes "map_of msg ''type'' = Some (JStr ''safe'')"
  shows "handle_msg B E s (Some (JObj msg)) =
           transmit E s (''SAFE,'' @
             str_int (if py_bool B (dict_get msg ''enable'' (JBool True)) then 1 else 0))"
  using assms by (simp add: handle_msg_def dict_get_def [of msg "''type''"] Let_def)

lemma handle_ping:
  assumes "map_of msg ''type'' = Some (JStr ''ping'')"
  shows "handle_msg B E s (Some (JObj msg)) =
           transmit E (s\<lparr>seq := (seq s + 1) mod 2 ^ 32\<rparr>)
             (''PING,'' @ str_int ((seq s + 1) mod 2 ^ 32))"
  using assms by (simp add: handle_msg_def dict_get_def [of msg "''type''"] Let_def and_mask32)

lemma handle_led:
  assumes "map_of msg ''type'' = Some (JStr ''led'')"
  shows "handle_msg B E s (Some (JObj msg)) =
           transmit E s (''LED,'' @
             str_int (case py_int B (dict_get msg ''mask'' (JInt 0)) of Inl e \<Rightarrow> 0 | Inr i \<Rightarrow> i))"
  using assms by (simp add: handle_msg_def dict_get_def [of msg "''type''"] Let_def)

lemma handle_other:
  assumes "dict_get msg ''type'' JNull \<notin> {JStr ''twist'', JStr ''safe'', JStr ''ping'', JStr ''led''}"
  shows "handle_msg B E s (Some (JObj msg)) = (s, None)"
  using assms by (simp add: handle_msg_def Let_def)

text \<open>What a successful transmit leaves, field by field.\<close>

lemma transmit_ok_fields:
  assumes "ser_open (serial s)" and "write_ok E"
  shows "snd (transmit E s line) = None"
    and "wire (serial (fst (transmit E s line))) = wire (serial s) @ line_data line"
    and "last_tx (fst (transmit E s line)) = Some line"
    and "tx_count (fst (transmit E s line)) = tx_count s + 1"
  using assms by (simp_all add: transmit_ok)

lemma encode_prefixes:
  "ascii_encode_ignore ''PING,'' = map of_char ''PING,''"
  "ascii_encode_ignore ''LED,'' = map of_char ''LED,''"
  "ascii_encode_ignore ''SAFE,'' = map of_char ''SAFE,''"
  by (simp_all add: ascii_encode_ignore_def is_ascii_def)

lemma line_data_ping:
  "line_data (''PING,'' @ str_int i) = map of_char (''PING,'' @ str_int i) @ [LF]"
  using line_data_int [of "''PING,''" i] by (simp only: encode_prefixes map_append append_assoc)

lemma line_data_led:
  "line_data (''LED,'' @ str_int i) = map of_char (''LED,'' @ str_int i) @ [LF]"
  using line_data_int [of "''LED,''" i] by (simp only: encode_prefixes map_append append_assoc)

lemma line_data_safe:
  "line_data (''SAFE,'' @ str_int i) = map of_char (''SAFE,'' @ str_int i) @ [LF]"
  using line_data_int [of "''SAFE,''" i] by (simp only: encode_prefixes map_append append_assoc)

subsection \<open>The device line of each message\<close>

text \<open>
  C5. On an open port whose device takes the write, a message is answered with
  no exception and one line, recorded as the last line sent and put on the wire
  with one newline after it: for \<open>twist\<close> with numeric \<open>vx\<close> and \<open>wz\<close>
  (absent fields count as 0.0) the line is \<open>TWIST,\<close> the two values in \<open>.3f\<close>
  format and the new sequence number, separated by commas; for \<open>safe\<close> it is
  \<open>SAFE,0\<close> or \<open>SAFE,1\<close>; for \<open>ping\<close> it is \<open>PING,\<close> and the new sequence number;
  for \<open>led\<close> with an integer mask \<open>m\<close> it is \<open>LED,\<close> and \<open>m\<close> in decimal.
\<close>

theorem handle_msg_line_shapes:
  fixes B :: "'f builtins" and s :: "'f server" and E :: env and msg :: "(string \<times> 'f json) list"
  defines "r \<equiv> handle_msg B E s (Some (JObj msg))"
  assumes "ser_open (serial s)" and "write_ok E"
  shows "(map_of msg ''type'' = Some (JStr ''twist'')
            \<and> py_float B (dict_get msg ''vx'' (JFloat (float_zero B))) = Inr x
            \<and> py_float B (dict_get msg ''wz'' (JFloat (float_zero B))) = Inr y \<longrightarrow>
          snd r = None
          \<and> last_tx (fst r) = Some (''TWIST,'' @ format_3f B x @ '','' @ format_3f B y @ '',''
                                     @ str_int (seq (fst r)))
          \<and> wire (serial (fst r)) = wire (serial s)
               @ ascii_encode_ignore (''TWIST,'' @ format_3f B x @ '','' @ format_3f B y @ '','')
               @ map of_char (str_int (seq (fst r))) @ [LF])
       \<and> (map_of msg ''type'' = Some (JStr ''safe'') \<longrightarrow>
          snd r = None
          \<and> (\<exists>d. (d = ''0'' \<or> d = ''1'') \<and> last_tx (fst r) = Some (''SAFE,'' @ d)
                \<and> wire (serial (fst r)) = wire (serial s) @ map of_char (''SAFE,'' @ d) @ [LF]))
       \<and> (map_of msg ''type'' = Some (JStr ''ping'') \<longrightarrow>
          snd r = None
          \<and> last_tx (fst r) = Some (''PING,'' @ str_int (seq (fst r)))
          \<and> wire (serial (fst r)) = wire (serial s)
               @ map of_char (''PING,'' @ str_int (seq (fst r))) @ [LF])
       \<and> (map_of msg ''type'' = Some (JStr ''led'')
            \<and> py_int B (dict_get msg ''mask'' (JInt 0)) = Inr m \<longrightarrow>
          snd r = None
          \<and> last_tx (fst r) = Some (''LED,'' @ str_int m)
          \<and> wire (serial (fst r)) = wire (serial s) @ map of_char (''LED,'' @ str_int m) @ [LF])"
proof -
  have twist: "snd r = None
      \<and> last_tx (fst r) = Some (''TWIST,'' @ format_3f B x @ '','' @ format_3f B y @ '',''
                                 @ str_int (seq (fst r)))
      \<and> wire (serial (fst r)) = wire (serial s)
           @ ascii_encode_ignore (''TWIST,'' @ format_3f B x @ '','' @ format_3f B y @ '','')
           @ map of_char (str_int (seq (fst r))) @ [LF]"
    if t: "map_of msg ''type'' = Some (JStr ''twist'')"
      and vx: "py_float B (dict_get msg ''vx'' (JFloat (float_zero B))) = Inr x"
      and wz: "py_float B (dict_get msg ''wz'' (JFloat (float_zero B))) = Inr y"
  proof -
    define q where "q = (seq s + 1) mod 2 ^ 32"
    define pre where "pre = ''TWIST,'' @ format_3f B x @ '','' @ format_3f B y @ '',''"
    define s1 where "s1 = s\<lparr>seq := q\<rparr>"
    have r: "r = transmit E s1 (pre @ str_int q)"
      unfolding r_def q_def pre_def s1_def using handle_twist [OF t vx wz, of E s] by simp
    have o: "ser_open (serial s1)" using assms(2) by (simp add: s1_def)
    have sq: "seq (fst r) = q" by (simp add: r transmit_seq s1_def)
    have "wire (serial (fst r)) = wire (serial s1) @ line_data (pre @ str_int q)"
      unfolding r by (rule transmit_ok_fields [OF o assms(3)])
    then have "wire (serial (fst r))
        = wire (serial s) @ ascii_encode_ignore pre @ map of_char (str_int q) @ [LF]"
      by (simp only: line_data_int) (simp add: s1_def)
    moreover have "last_tx (fst r) = Some (pre @ str_int q)"
      unfolding r by (rule transmit_ok_fields [OF o assms(3)])
    moreover have "snd r = None"
      unfolding r by (rule transmit_ok_fields [OF o assms(3)])
    ultimately show ?thesis
      unfolding sq unfolding pre_def by simp
  qed
  have safe: "snd r = None
      \<and> (\<exists>d. (d = ''0'' \<or> d = ''1'') \<and> last_tx (fst r) = Some (''SAFE,'' @ d)
            \<and> wire (serial (fst r)) = wire (serial s) @ map of_char (''SAFE,'' @ d) @ [LF])"
    if t: "map_of msg ''type'' = Some (JStr ''safe'')"
  proof -
    define v :: int where "v = (if py_bool B (dict_get msg ''enable'' (JBool True)) then 1 else 0)"
    have r: "r = transmit E s (''SAFE,'' @ str_int v)"
      unfolding r_def v_def by (rule handle_safe [OF t])
    have d: "str_int v = ''0'' \<or> str_int v = ''1''"
      by (simp add: v_def str_int_0 str_int_1)
    have "wire (serial (fst r)) = wire (serial s) @ map of_char (''SAFE,'' @ str_int v) @ [LF]"
      unfolding r using transmit_ok_fields(2) [OF assms(2,3), of "''SAFE,'' @ str_int v"]
      by (simp only: line_data_safe)
    moreover have "last_tx (fst r) = Some (''SAFE,'' @ str_int v)"
      unfolding r by (rule transmit_ok_fields [OF assms(2,3)])
    moreover have "snd r = None"
      unfolding r by (rule transmit_ok_fields [OF assms(2,3)])
    ultimately show ?thesis
      using d by blast
  qed
  have ping: "snd r = None
      \<and> last_tx (fst r) = Some (''PING,'' @ str_int (seq (fst r)))
      \<and> wire (serial (fst r)) = wire (serial s)
           @ map of_char (''PING,'' @ str_int (seq (fst r))) @ [LF]"
    if t: "map_of msg ''type'' = Some (JStr ''ping'')"
  proof -
    define q where "q = (seq s + 1) mod 2 ^ 32"
    define s1 where "s1 = s\<lparr>seq := q\<rparr>"
    have r: "r = transmit E s1 (''PING,'' @ str_int q)"
      unfolding r_def q_def s1_def by (rule handle_ping [OF t])
    have o: "ser_open (serial s1)" using assms(2) by (simp add: s1_def)
    have sq: "seq (fst r) = q" by (simp add: r transmit_seq s1_def)
    have "wire (serial (fst r)) = wire (serial s1) @ line_data (''PING,'' @ str_int q)"
      unfolding r by (rule transmit_ok_fields [OF o assms(3)])
    then have "wire (serial (fst r)) = wire (serial s) @ map of_char (''PING,'' @ str_int q) @ [LF]"
      by (simp only: line_data_ping) (simp add: s1_def)
    moreover have "last_tx (fst r) = Some (''PING,'' @ str_int q)"
      unfolding r by (rule transmit_ok_fields [OF o assms(3)])
    moreover have "snd r = None"
      unfolding r by (rule transmit_ok_fields [OF o assms(3)])
    ultimately show ?thesis
      unfolding sq by simp
  qed
  have led: "snd r = None
      \<and> last_tx (fst r) = Some (''LED,'' @ str_int m)
      \<and> wire (serial (fst r)) = wire (serial s) @ map of_char (''LED,'' @ str_int m) @ [LF]"
    if t: "map_of msg ''type'' = Some (JStr ''led'')"
      and m: "py_int B (dict_get msg ''mask'' (JInt 0)) = Inr m"
  proof -
    have r: "r = transmit E s (''LED,'' @ str_int m)"
      unfolding r_def using handle_led [OF t, of B E s] by (simp add: m)
    have "wire (serial (fst r)) = wire (serial s) @ map of_char (''LED,'' @ str_int m) @ [LF]"
      unfolding r using transmit_ok_fields(2) [OF assms(2,3), of "''LED,'' @ str_int m"]
      by (simp only: line_data_led)
    moreover have "last_tx (fst r) = Some (''LED,'' @ str_int m)"
      unfolding r by (rule transmit_ok_fields [OF assms(2,3)])
    moreover have "snd r = None"
      unfolding r by (rule transmit_ok_fields [OF assms(2,3)])
    ultimately show ?thesis
      by blast
  qed
  from twist safe ping led show ?thesis
    by blast
qed

theorem handle_msg_line_shapes_witness:
  "last_tx (fst (handle_msg sample_builtins \<lparr>write_ok = True, send_ok = (\<lambda>w. True)\<rparr>
      (start new_server)
      (Some (JObj [(''type'', JStr ''twist''), (''vx'', JInt 1), (''wz'', JInt (- 2))]))))
     = Some ''TWIST,1.000,-2.000,2''
   \<and> wire (serial (fst (handle_msg sample_builtins \<lparr>write_ok = True, send_ok = (\<lambda>w. True)\<rparr>
      (start new_server)
      (Some (JObj [(''type'', JStr ''safe''), (''enable'', JBool False)])))))
     = map of_char ''SAFE,0'' @ [LF]
   \<and> wire (serial (fst (handle_msg sample_builtins \<lparr>write_ok = True, send_ok = (\<lambda>w. True)\<rparr>
      (start new_server) (Some (JObj [(''type'', JStr ''ping'')])))))
     = map of_char ''PING,2'' @ [LF]
   \<and> wire (serial (fst (handle_msg sample_builtins \<lparr>write_ok = True, send_ok = (\<lambda>w. True)\<rparr>
      (start new_server) (Some (JObj [(''type'', JStr ''led''), (''mask'', JInt 5)])))))
     = map of_char ''LED,5'' @ [LF]"
  using
    handle_msg_line_shapes [where B = sample_builtins and s = "start new_server"
      and E = "\<lparr>write_ok = True, send_ok = (\<lambda>w. True)\<rparr>" and x = 1 and y = "- 2" and m = 5
      and msg = "[(''type'', JStr ''twist''), (''vx'', JInt 1), (''wz'', JInt (- 2))]"]
    handle_msg_line_shapes [where B = sample_builtins and s = "start new_server"
      and E = "\<lparr>write_ok = True, send_ok = (\<lambda>w. True)\<rparr>" and x = 1 and y = "- 2" and m = 5
      and msg = "[(''type'', JStr ''led''), (''mask'', JInt 5)]"]
  by (simp add: run_defs)

subsection \<open>The LED mask\<close>

text \<open>
  C8. An \<open>led\<close> message whose mask \<open>int\<close> rejects (whatever the exception) is
  not dropped: on an open port whose device takes the write, the call returns
  without an exception, the line \<open>LED,0\<close> is the one line sent and counted, and
  the wire gets \<open>LED,0\<close> and a newline.
\<close>

theorem led_mask_default:
  fixes B :: "'f builtins" and s :: "'f server" and E :: env and msg :: "(string \<times> 'f json) list"
  defines "r \<equiv> handle_msg B E s (Some (JObj msg))"
  assumes "ser_open (serial s)" and "write_ok E"
    and "map_of msg ''type'' = Some (JStr ''led'')"
    and "py_int B (dict_get msg ''mask'' (JInt 0)) = Inl e"
  shows "snd r = None \<and> last_tx (fst r) = Some ''LED,0'' \<and> tx_count (fst r) = tx_count s + 1
         \<and> wire (serial (fst r)) = wire (serial s) @ map of_char ''LED,0'' @ [LF]"
proof -
  have r: "r = transmit E s (''LED,'' @ str_int 0)"
    unfolding r_def using handle_led [OF assms(4), of B E s] by (simp add: assms(5))
  have "wire (serial (fst r)) = wire (serial s) @ map of_char (''LED,'' @ str_int 0) @ [LF]"
    unfolding r using transmit_ok_fields(2) [OF assms(2,3), of "''LED,'' @ str_int 0"]
    by (simp only: line_data_led)
  moreover have "last_tx (fst r) = Some (''LED,'' @ str_int 0)"
    unfolding r by (rule transmit_ok_fields [OF assms(2,3)])
  moreover have "snd r = None"
    unfolding r by (rule transmit_ok_fields [OF assms(2,3)])
  moreover have "tx_count (fst r) = tx_count s + 1"
    unfolding r by (rule transmit_ok_fields [OF assms(2,3)])
  ultimately show ?thesis
    by (simp add: str_int_0)
qed

theorem led_mask_default_witness:
  "snd (handle_msg sample_builtins \<lparr>write_ok = True, send_ok = (\<lambda>w. True)\<rparr> (start new_server)
         (Some (JObj [(''type'', JStr ''led''), (''mask'', JStr ''all'')]))) = None
   \<and> wire (serial (fst (handle_msg sample_builtins \<lparr>write_ok = True, send_ok = (\<lambda>w. True)\<rparr>
         (start new_server) (Some (JObj [(''type'', JStr ''led''), (''mask'', JStr ''all'')])))))
     = [0x4C, 0x45, 0x44, 0x2C, 0x30, LF]"
  using led_mask_default [where B = sample_builtins and s = "start new_server"
      and E = "\<lparr>write_ok = True, send_ok = (\<lambda>w. True)\<rparr>" and e = ValueError
      and msg = "[(''type'', JStr ''led''), (''mask'', JStr ''all'')]"]
  by (simp add: start_def new_server_def sample_builtins_def dict_get_def)

subsection \<open>The safety flag\<close>

text \<open>
  C10. For a \<open>safe\<close> message on an open port whose device takes the write: with
  no \<open>enable\<close> field the line is \<open>SAFE,1\<close>; with an \<open>enable\<close> field of value \<open>v\<close>
  the line is \<open>SAFE,1\<close> when \<open>bool(v)\<close> holds and \<open>SAFE,0\<close> otherwise; and
  \<open>false\<close>, \<open>0\<close>, the empty string and \<open>null\<close> are false.
\<close>

theorem safe_enable_truthiness:
  fixes B :: "'f builtins" and s :: "'f server" and E :: env and msg :: "(string \<times> 'f json) list"
  defines "r \<equiv> handle_msg B E s (Some (JObj msg))"
  assumes "ser_open (serial s)" and "write_ok E"
    and "map_of msg ''type'' = Some (JStr ''safe'')"
  shows "(map_of msg ''enable'' = None \<longrightarrow>
            last_tx (fst r) = Some ''SAFE,1''
            \<and> wire (serial (fst r)) = wire (serial s) @ map of_char ''SAFE,1'' @ [LF])
         \<and> (\<forall>v. map_of msg ''enable'' = Some v \<longrightarrow>
            last_tx (fst r) = Some (if py_bool B v then ''SAFE,1'' else ''SAFE,0'')
            \<and> wire (serial (fst r)) = wire (serial s)
                 @ map of_char (if py_bool B v then ''SAFE,1'' else ''SAFE,0'') @ [LF])
         \<and> \<not> py_bool B (JBool False) \<and> \<not> py_bool B (JInt 0) \<and> \<not> py_bool B (JStr [])
         \<and> \<not> py_bool B JNull \<and> py_bool B (JBool True)"
proof -
  define b where "b = py_bool B (dict_get msg ''enable'' (JBool True))"
  have r: "r = transmit E s (''SAFE,'' @ str_int (if b then 1 else 0))"
    unfolding r_def b_def by (rule handle_safe [OF assms(4)])
  have "wire (serial (fst r))
      = wire (serial s) @ map of_char (''SAFE,'' @ str_int (if b then 1 else 0)) @ [LF]"
    unfolding r
    using transmit_ok_fields(2) [OF assms(2,3), of "''SAFE,'' @ str_int (if b then 1 else 0)"]
    by (simp only: line_data_safe)
  then have w: "wire (serial (fst r))
      = wire (serial s) @ map of_char (if b then ''SAFE,1'' else ''SAFE,0'') @ [LF]"
    by (simp add: str_int_0 str_int_1)
  have "last_tx (fst r) = Some (''SAFE,'' @ str_int (if b then 1 else 0))"
    unfolding r by (rule transmit_ok_fields [OF assms(2,3)])
  then have l: "last_tx (fst r) = Some (if b then ''SAFE,1'' else ''SAFE,0'')"
    by (simp add: str_int_0 str_int_1)
  have absent: "b" if "map_of msg ''enable'' = None"
    using that by (simp add: b_def dict_get_def)
  have present: "b = py_bool B v" if "map_of msg ''enable'' = Some v" for v
    using that by (simp add: b_def dict_get_def)
  show ?thesis
    using w l absent present by auto
qed

theorem safe_enable_truthiness_witness:
  "last_tx (fst (handle_msg sample_builtins \<lparr>write_ok = True, send_ok = (\<lambda>w. True)\<rparr>
      (start new_server) (Some (JObj [(''type'', JStr ''safe'')])))) = Some ''SAFE,1''
   \<and> last_tx (fst (handle_msg sample_builtins \<lparr>write_ok = True, send_ok = (\<lambda>w. True)\<rparr>
      (start new_server) (Some (JObj [(''type'', JStr ''safe''), (''enable'', JInt 0)]))))
     = Some ''SAFE,0''
   \<and> last_tx (fst (handle_msg sample_builtins \<lparr>write_ok = True, send_ok = (\<lambda>w. True)\<rparr>
      (start new_server) (Some (JObj [(''type'', JStr ''safe''), (''enable'', JStr ''no'')]))))
     = Some ''SAFE,1''"
  using
    safe_enable_truthiness [where B = sample_builtins and s = "start new_server"
      and E = "\<lparr>write_ok = True, send_ok = (\<lambda>w. True)\<rparr>"
      and msg = "[(''type'', JStr ''safe'')]"]
    safe_enable_truthiness [where B = sample_builtins and s = "start new_server"
      and E = "\<lparr>write_ok = True, send_ok = (\<lambda>w. True)\<rparr>"
      and msg = "[(''type'', JStr ''safe''), (''enable'', JInt 0)]"]
    safe_enable_truthiness [where B = sample_builtins and s = "start new_server"
      and E = "\<lparr>write_ok = True, send_ok = (\<lambda>w. True)\<rparr>"
      and msg = "[(''type'', JStr ''safe''), (''enable'', JStr ''no'')]"]
  by (simp add: start_def new_server_def)

subsection \<open>A failed write\<close>

lemma handle_rendered:
  fixes B :: "'f builtins" and s :: "'f server"
  assumes "map_of msg ''type'' = Some (JStr ''ping'') \<or> map_of msg ''type'' = Some (JStr ''safe'')
           \<or> map_of msg ''type'' = Some (JStr ''led'')
           \<or> (map_of msg ''type'' = Some (JStr ''twist'')
               \<and> py_float B (dict_get msg ''vx'' (JFloat (float_zero B))) = Inr x
               \<and> py_float B (dict_get msg ''wz'' (JFloat (float_zero B))) = Inr y)"
  shows "\<exists>q line. handle_msg B E s (Some (JObj msg)) = transmit E (s\<lparr>seq := q\<rparr>) line"
proof -
  have same: "s = s\<lparr>seq := seq s\<rparr>" by simp
  from assms consider
      (ping) "map_of msg ''type'' = Some (JStr ''ping'')"
    | (safe) "map_of msg ''type'' = Some (JStr ''safe'')"
    | (led) "map_of msg ''type'' = Some (JStr ''led'')"
    | (twist) "map_of msg ''type'' = Some (JStr ''twist'')"
        "py_float B (dict_get msg ''vx'' (JFloat (float_zero B))) = Inr x"
        "py_float B (dict_get msg ''wz'' (JFloat (float_zero B))) = Inr y"
    by blast
  then show ?thesis
  proof cases
    case ping
    then show ?thesis using handle_ping [of msg B E s] by blast
  next
    case safe
    then show ?thesis using handle_safe [of msg B E s] same by metis
  next
    case led
    then show ?thesis using handle_led [of msg B E s] same by metis
  next
    case twist
    then show ?thesis using handle_twist [of msg B x y E s] by blast
  qed
qed

text \<open>
  C9. Let the write of a rendered command raise: the port is not open, or the
  device write fails. Then the exception leaves \<open>handle_msg\<close>, the count of sent
  lines, the last sent line and the wire are as before, and yet every
  registered session whose send succeeds has received the \<open>tx\<close> event with the
  rendered line; the other inboxes are unchanged.
\<close>

theorem write_failure_still_echoes:
  fixes B :: "'f builtins" and s :: "'f server" and E :: env and msg :: "(string \<times> 'f json) list"
  defines "r \<equiv> handle_msg B E s (Some (JObj msg))"
  assumes fail: "\<not> ser_open (serial s) \<or> \<not> write_ok E"
    and dist: "distinct (ws_clients s)"
    and kind: "map_of msg ''type'' = Some (JStr ''ping'') \<or> map_of msg ''type'' = Some (JStr ''safe'')
           \<or> map_of msg ''type'' = Some (JStr ''led'')
           \<or> (map_of msg ''type'' = Some (JStr ''twist'')
               \<and> py_float B (dict_get msg ''vx'' (JFloat (float_zero B))) = Inr x
               \<and> py_float B (dict_get msg ''wz'' (JFloat (float_zero B))) = Inr y)"
  shows "\<exists>line. stdout (fst r) = stdout s @ [WsToSerial line]
           \<and> snd r = Some (if \<not> ser_open (serial s) then RuntimeError else SerialException)
           \<and> tx_count (fst r) = tx_count s \<and> last_tx (fst r) = last_tx s
           \<and> wire (serial (fst r)) = wire (serial s)
           \<and> (\<forall>w. inbox (fst r) w =
                 (if w \<in> set (ws_clients s) \<and> send_ok E w
                  then inbox s w @ [JObj [(''type'', JStr ''tx''), (''line'', JStr line)]]
                  else inbox s w))"
proof -
  obtain q line where r: "r = transmit E (s\<lparr>seq := q\<rparr>) line"
    unfolding r_def using handle_rendered [OF kind] by blast
  have f: "\<not> ser_open (serial (s\<lparr>seq := q\<rparr>)) \<or> \<not> write_ok E"
    using fail by simp
  have ib: "echo_all (send_ok E) p (ws_clients s) (inbox s) w =
      (if w \<in> set (ws_clients s) \<and> send_ok E w then inbox s w @ [p] else inbox s w)" for p w
    using echo_all_member [OF dist, of w "send_ok E" p "inbox s"]
      echo_all_other [of w "ws_clients s" "send_ok E" p "inbox s"]
    by (cases "w \<in> set (ws_clients s)") auto
  have "stdout (fst r) = stdout s @ [WsToSerial line]
      \<and> snd r = Some (if \<not> ser_open (serial s) then RuntimeError else SerialException)
      \<and> tx_count (fst r) = tx_count s \<and> last_tx (fst r) = last_tx s
      \<and> wire (serial (fst r)) = wire (serial s)
      \<and> (\<forall>w. inbox (fst r) w =
            (if w \<in> set (ws_clients s) \<and> send_ok E w
             then inbox s w @ [JObj [(''type'', JStr ''tx''), (''line'', JStr line)]]
             else inbox s w))"
    unfolding r transmit_fail [OF f] by (simp add: ib)
  then show ?thesis ..
qed

theorem write_failure_still_echoes_witness:
  "snd (handle_msg sample_builtins \<lparr>write_ok = True, send_ok = (\<lambda>w. w \<noteq> 2)\<rparr>
          (add_client 2 (add_client 1 new_server)) (Some (JObj [(''type'', JStr ''ping'')])))
     = Some RuntimeError
   \<and> tx_count (fst (handle_msg sample_builtins \<lparr>write_ok = True, send_ok = (\<lambda>w. w \<noteq> 2)\<rparr>
          (add_client 2 (add_client 1 new_server)) (Some (JObj [(''type'', JStr ''ping'')])))) = 0
   \<and> inbox (fst (handle_msg sample_builtins \<lparr>write_ok = True, send_ok = (\<lambda>w. w \<noteq> 2)\<rparr>
          (add_client 2 (add_client 1 new_server)) (Some (JObj [(''type'', JStr ''ping'')])))) 1
     = [JObj [(''type'', JStr ''tx''), (''line'', JStr ''PING,2'')]]"
  using write_failure_still_echoes [where B = sample_builtins
      and s = "add_client 2 (add_client 1 new_server)"
      and E = "\<lparr>write_ok = True, send_ok = (\<lambda>w. w \<noteq> 2)\<rparr>"
      and msg = "[(''type'', JStr ''ping'')]" and x = 0 and y = 0]
  by (simp add: add_client_def run_defs)

subsection \<open>A twist message with a malformed field\<close>

text \<open>
  C3, on the code. For a \<open>twist\<close> message whose \<open>vx\<close> \<open>float\<close> rejects, nothing is
  written, echoed or counted and the state is unchanged, but the exception of
  \<open>float\<close> is not caught: it leaves \<open>handle_msg\<close>, ends the receive loop of the
  sender, whose session is discarded, and the sender's later messages are not
  handled.
\<close>

theorem twist_bad_vx_raises:
  assumes "map_of msg ''type'' = Some (JStr ''twist'')"
    and "py_float B (dict_get msg ''vx'' (JFloat (float_zero B))) = Inl e"
  shows "handle_msg B E s (Some (JObj msg)) = (s, Some e)
         \<and> ws_receive B w s ((E, Some (JObj msg)) # rest)
             = (s\<lparr>ws_clients := discard w (ws_clients s)\<rparr>, Some e)"
  using handle_twist_bad_vx [OF assms] by simp

theorem twist_bad_vx_raises_witness:
  "handle_msg sample_builtins \<lparr>write_ok = True, send_ok = (\<lambda>w. True)\<rparr> (start new_server)
      (Some (JObj [(''type'', JStr ''twist''), (''vx'', JStr ''abc'')]))
     = (start new_server, Some ValueError)"
  using twist_bad_vx_raises [where B = sample_builtins and s = "start new_server"
      and E = "\<lparr>write_ok = True, send_ok = (\<lambda>w. True)\<rparr>" and e = ValueError
      and msg = "[(''type'', JStr ''twist''), (''vx'', JStr ''abc'')]"]
  by (simp add: sample_builtins_def dict_get_def)

subsection \<open>Sequence numbers\<close>

lemma seq_lines_append: "seq_lines (a @ b) = seq_lines a @ seq_lines b"
  by (induction a rule: seq_lines.induct) auto

lemma last_field_int: "last_field (pre @ CHR '','' # str_int q) = str_int q"
proof -
  have "takeWhile (\<lambda>c. c \<noteq> CHR '','') (rev (str_int q) @ CHR '','' # rev pre) = rev (str_int q)"
    using str_int_no_comma [of q] by (subst takeWhile_append2) auto
  then show ?thesis by (simp add: last_field_def)
qed

lemma last_field_twist:
  "last_field (''TWIST,'' @ a @ '','' @ b @ '','' @ str_int q) = str_int q"
  using last_field_int [of "''TWIST,'' @ a @ '','' @ b" q] by simp

lemma last_field_ping: "last_field (''PING,'' @ str_int q) = str_int q"
  using last_field_int [of "''PING'' " q] by simp

text \<open>One message: the log grows by at most one line; a line with a sequence
  number carries the successor of the counter, which becomes the counter.\<close>

lemma handle_msg_step:
  fixes B :: "'f builtins" and s :: "'f server" and E :: env and d :: "'f json option"
  defines "s' \<equiv> fst (handle_msg B E s d)"
  shows "\<exists>new. stdout s' = stdout s @ new
           \<and> ((seq_lines new = [] \<and> seq s' = seq s)
              \<or> (\<exists>line. seq_lines new = [line]
                    \<and> last_field line = str_int ((seq s + 1) mod 2 ^ 32)
                    \<and> seq s' = (seq s + 1) mod 2 ^ 32))"
proof -
  have quiet: ?thesis if "s' = s"
    using that by simp
  have plain: ?thesis
    if "s' = fst (transmit E s line)" and "take 6 line \<noteq> ''TWIST,''" and "take 5 line \<noteq> ''PING,''"
    for line
    using that by (simp add: transmit_stdout transmit_seq)
  have stamped: ?thesis
    if "s' = fst (transmit E (s\<lparr>seq := (seq s + 1) mod 2 ^ 32\<rparr>) line)"
      and "take 6 line = ''TWIST,'' \<or> take 5 line = ''PING,''"
      and "last_field line = str_int ((seq s + 1) mod 2 ^ 32)"
    for line
    using that by (simp add: transmit_stdout transmit_seq)
  show ?thesis
  proof (cases d)
    case None
    then show ?thesis by (intro quiet) (simp add: s'_def handle_msg_def)
  next
    case (Some j)
    show ?thesis
    proof (cases "\<exists>msg. j = JObj msg")
      case False
      then have "handle_msg B E s d = (s, Some AttributeError)"
        using Some by (cases j) (simp_all add: handle_msg_def)
      then show ?thesis by (intro quiet) (simp add: s'_def)
    next
      case True
      then obtain msg where j: "d = Some (JObj msg)" using Some by blast
      define t where "t = dict_get msg ''type'' JNull"
      have mo: "map_of msg ''type'' = Some t" if "t \<noteq> JNull"
        using that by (auto simp: t_def dict_get_def split: option.splits)
      consider (twist) "t = JStr ''twist''" | (safe) "t = JStr ''safe''" | (ping) "t = JStr ''ping''"
        | (led) "t = JStr ''led''"
        | (other) "t \<notin> {JStr ''twist'', JStr ''safe'', JStr ''ping'', JStr ''led''}"
        by blast
      then show ?thesis
      proof cases
        case twist
        then have m: "map_of msg ''type'' = Some (JStr ''twist'')" using mo by simp
        show ?thesis
        proof (cases "py_float B (dict_get msg ''vx'' (JFloat (float_zero B)))")
          case (Inl e)
          then show ?thesis
            by (intro quiet) (simp add: s'_def j handle_twist_bad_vx [OF m])
        next
          case vx: (Inr x)
          show ?thesis
          proof (cases "py_float B (dict_get msg ''wz'' (JFloat (float_zero B)))")
            case (Inl e)
            then show ?thesis
              by (intro quiet) (simp add: s'_def j handle_twist_bad_wz [OF m vx])
          next
            case wz: (Inr y)
            let ?line = "''TWIST,'' @ format_3f B x @ '','' @ format_3f B y @ '',''
                    @ str_int ((seq s + 1) mod 2 ^ 32)"
            show ?thesis
            proof (rule stamped [of ?line])
              show "s' = fst (transmit E (s\<lparr>seq := (seq s + 1) mod 2 ^ 32\<rparr>) ?line)"
                by (simp only: s'_def j handle_twist [OF m vx wz])
              show "take 6 ?line = ''TWIST,'' \<or> take 5 ?line = ''PING,''"
                by simp
              show "last_field ?line = str_int ((seq s + 1) mod 2 ^ 32)"
                by (rule last_field_twist)
            qed
          qed
        qed
      next
        case safe
        then have m: "map_of msg ''type'' = Some (JStr ''safe'')" using mo by simp
        show ?thesis
          by (rule plain [of "''SAFE,'' @
                str_int (if py_bool B (dict_get msg ''enable'' (JBool True)) then 1 else 0)"])
             (simp_all add: s'_def j handle_safe [OF m])
      next
        case ping
        then have m: "map_of msg ''type'' = Some (JStr ''ping'')" using mo by simp
        let ?line = "''PING,'' @ str_int ((seq s + 1) mod 2 ^ 32)"
        show ?thesis
        proof (rule stamped [of ?line])
          show "s' = fst (transmit E (s\<lparr>seq := (seq s + 1) mod 2 ^ 32\<rparr>) ?line)"
            by (simp only: s'_def j handle_ping [OF m])
          show "take 6 ?line = ''TWIST,'' \<or> take 5 ?line = ''PING,''"
            by simp
          show "last_field ?line = str_int ((seq s + 1) mod 2 ^ 32)"
            by (rule last_field_ping)
        qed
      next
        case led
        then have m: "map_of msg ''type'' = Some (JStr ''led'')" using mo by simp
        show ?thesis
          by (rule plain [of "''LED,'' @
                str_int (case py_int B (dict_get msg ''mask'' (JInt 0)) of Inl e \<Rightarrow> 0 | Inr i \<Rightarrow> i)"])
             (simp_all add: s'_def j handle_led [OF m])
      next
        case other
        then show ?thesis
          by (intro quiet) (simp add: s'_def j t_def handle_other)
      qed
    qed
  qed
qed

lemma map_upt_shift: "map f [1..<Suc (Suc n)] = f 1 # map (\<lambda>k. f (Suc k)) [1..<Suc n]"
proof -
  have "[1..<Suc (Suc n)] = 1 # [Suc 1..<Suc (Suc n)]"
    by (simp add: upt_conv_Cons)
  also have "[Suc 1..<Suc (Suc n)] = map Suc [1..<Suc n]"
    by (simp only: map_Suc_upt)
  finally show ?thesis
    by (simp add: comp_def)
qed

lemma handle_msgs_log:
  fixes B :: "'f builtins" and s :: "'f server"
  shows "\<exists>new. stdout (handle_msgs B s ms) = stdout s @ new
           \<and> map last_field (seq_lines new)
               = map (\<lambda>k. str_int ((seq s + int k) mod 2 ^ 32)) [1..<Suc (length (seq_lines new))]
           \<and> seq (handle_msgs B s ms)
               = (if seq_lines new = [] then seq s
                  else (seq s + int (length (seq_lines new))) mod 2 ^ 32)"
proof (induction ms arbitrary: s)
  case Nil
  show ?case by simp
next
  case (Cons m ms)
  obtain E d where m: "m = (E, d)" by (cases m)
  define s1 where "s1 = fst (handle_msg B E s d)"
  obtain new0 where n0: "stdout s1 = stdout s @ new0"
      and step: "(seq_lines new0 = [] \<and> seq s1 = seq s)
              \<or> (\<exists>line. seq_lines new0 = [line]
                    \<and> last_field line = str_int ((seq s + 1) mod 2 ^ 32)
                    \<and> seq s1 = (seq s + 1) mod 2 ^ 32)"
    unfolding s1_def using handle_msg_step [of B E s d] by blast
  obtain new1 where n1: "stdout (handle_msgs B s1 ms) = stdout s1 @ new1"
      and st1: "map last_field (seq_lines new1)
               = map (\<lambda>k. str_int ((seq s1 + int k) mod 2 ^ 32)) [1..<Suc (length (seq_lines new1))]"
      and sq1: "seq (handle_msgs B s1 ms)
               = (if seq_lines new1 = [] then seq s1
                  else (seq s1 + int (length (seq_lines new1))) mod 2 ^ 32)"
    using Cons.IH [of s1] by blast
  have run: "handle_msgs B s (m # ms) = handle_msgs B s1 ms"
    by (simp add: m s1_def)
  have out: "stdout (handle_msgs B s (m # ms)) = stdout s @ (new0 @ new1)"
    by (simp add: run n1 n0)
  from step show ?case
  proof
    assume "seq_lines new0 = [] \<and> seq s1 = seq s"
    then show ?thesis
      using out st1 sq1 by (intro exI [of _ "new0 @ new1"]) (simp add: run seq_lines_append)
  next
    assume "\<exists>line. seq_lines new0 = [line]
                    \<and> last_field line = str_int ((seq s + 1) mod 2 ^ 32)
                    \<and> seq s1 = (seq s + 1) mod 2 ^ 32"
    then obtain line where l: "seq_lines new0 = [line]"
        and lf: "last_field line = str_int ((seq s + 1) mod 2 ^ 32)"
        and sq: "seq s1 = (seq s + 1) mod 2 ^ 32"
      by blast
    let ?n = "length (seq_lines new1)"
    have shift: "(seq s1 + int k) mod 2 ^ 32 = (seq s + int (Suc k)) mod 2 ^ 32" for k
    proof -
      have "((seq s + 1) mod 2 ^ 32 + int k) mod 2 ^ 32 = ((seq s + 1) + int k) mod 2 ^ 32"
        by (rule mod_add_left_eq)
      also have "(seq s + 1) + int k = seq s + int (Suc k)"
        by simp
      finally show ?thesis
        by (simp only: sq)
    qed
    have a: "seq_lines (new0 @ new1) = line # seq_lines new1"
      by (simp add: seq_lines_append l)
    have b: "map last_field (seq_lines new1)
        = map (\<lambda>k. str_int ((seq s + int (Suc k)) mod 2 ^ 32)) [1..<Suc ?n]"
      using st1 by (simp only: shift)
    have "map last_field (seq_lines (new0 @ new1))
        = str_int ((seq s + int 1) mod 2 ^ 32)
            # map (\<lambda>k. str_int ((seq s + int (Suc k)) mod 2 ^ 32)) [1..<Suc ?n]"
      by (simp only: a list.map lf b of_nat_1)
    also have "\<dots> = map (\<lambda>k. str_int ((seq s + int k) mod 2 ^ 32)) [1..<Suc (Suc ?n)]"
      by (rule map_upt_shift [of "\<lambda>k. str_int ((seq s + int k) mod 2 ^ 32)" ?n, symmetric])
    finally have stamps: "map last_field (seq_lines (new0 @ new1))
        = map (\<lambda>k. str_int ((seq s + int k) mod 2 ^ 32))
            [1..<Suc (length (seq_lines (new0 @ new1)))]"
      by (simp only: a length_Cons)
    have "seq (handle_msgs B s1 ms) = (seq s + int (Suc ?n)) mod 2 ^ 32"
    proof (cases "seq_lines new1 = []")
      case True
      then show ?thesis using sq1 sq by simp
    next
      case False
      then show ?thesis using sq1 shift [of ?n] by simp
    qed
    then have "seq (handle_msgs B s (m # ms))
        = (if seq_lines (new0 @ new1) = [] then seq s
           else (seq s + int (length (seq_lines (new0 @ new1)))) mod 2 ^ 32)"
      by (simp add: run seq_lines_append l)
    with out stamps show ?thesis
      by blast
  qed
qed

text \<open>
  C2. Start from a counter within 0 .. 2^32 - 1 and handle any sequence of
  messages, whatever the environment does at each. The \<open>TWIST\<close> and \<open>PING\<close> lines
  rendered, in order, end in the successors of the counter modulo 2^32: the
  k-th of them carries the counter plus k, modulo 2^32. The counter ends that
  many steps on, so nothing else has moved it; a \<open>safe\<close> or \<open>led\<close> message leaves
  it as it is, and a \<open>ping\<close> moves it by one.
\<close>

theorem seq_numbers_consecutive:
  fixes B :: "'f builtins" and s :: "'f server" and ms :: "(env \<times> 'f json option) list"
  defines "s' \<equiv> handle_msgs B s ms"
  defines "stamped \<equiv> seq_lines (drop (length (stdout s)) (stdout s'))"
  assumes "0 \<le> seq s" and "seq s < 2 ^ 32"
  shows "map last_field stamped
           = map (\<lambda>k. str_int ((seq s + int k) mod 2 ^ 32)) [1..<Suc (length stamped)]
         \<and> seq s' = (seq s + int (length stamped)) mod 2 ^ 32
         \<and> (\<forall>E msg. map_of msg ''type'' = Some (JStr ''safe'')
                      \<or> map_of msg ''type'' = Some (JStr ''led'') \<longrightarrow>
               seq (fst (handle_msg B E s (Some (JObj msg)))) = seq s)
         \<and> (\<forall>E msg. map_of msg ''type'' = Some (JStr ''ping'') \<longrightarrow>
               seq (fst (handle_msg B E s (Some (JObj msg)))) = (seq s + 1) mod 2 ^ 32)"
proof -
  obtain new where n: "stdout s' = stdout s @ new"
      and st: "map last_field (seq_lines new)
               = map (\<lambda>k. str_int ((seq s + int k) mod 2 ^ 32)) [1..<Suc (length (seq_lines new))]"
      and sq: "seq s' = (if seq_lines new = [] then seq s
                  else (seq s + int (length (seq_lines new))) mod 2 ^ 32)"
    unfolding s'_def using handle_msgs_log [of B s ms] by blast
  have new: "stamped = seq_lines new"
    by (simp add: stamped_def n)
  have "seq s mod 2 ^ 32 = seq s"
    using assms(3,4) by simp
  then have "seq s' = (seq s + int (length stamped)) mod 2 ^ 32"
    using sq by (simp add: new)
  moreover have "seq (fst (handle_msg B E s (Some (JObj msg)))) = seq s"
    if "map_of msg ''type'' = Some (JStr ''safe'') \<or> map_of msg ''type'' = Some (JStr ''led'')"
    for E msg
    using that handle_safe [of msg B E s] handle_led [of msg B E s] by (auto simp: transmit_seq)
  moreover have "seq (fst (handle_msg B E s (Some (JObj msg)))) = (seq s + 1) mod 2 ^ 32"
    if "map_of msg ''type'' = Some (JStr ''ping'')" for E msg
    using that handle_ping [of msg B E s] by (simp add: transmit_seq)
  ultimately show ?thesis
    using st by (simp add: new)
qed

theorem seq_numbers_consecutive_witness:
  "map last_field (seq_lines (stdout (handle_msgs sample_builtins
      ((start new_server)\<lparr>seq := 4294967294\<rparr>)
      [(\<lparr>write_ok = True, send_ok = (\<lambda>w. True)\<rparr>, Some (JObj [(''type'', JStr ''ping'')])),
       (\<lparr>write_ok = True, send_ok = (\<lambda>w. True)\<rparr>, Some (JObj [(''type'', JStr ''safe'')])),
       (\<lparr>write_ok = False, send_ok = (\<lambda>w. True)\<rparr>,
          Some (JObj [(''type'', JStr ''twist''), (''vx'', JInt 1)])),
       (\<lparr>write_ok = True, send_ok = (\<lambda>w. True)\<rparr>,
          Some (JObj [(''type'', JStr ''led''), (''mask'', JInt 3)])),
       (\<lparr>write_ok = True, send_ok = (\<lambda>w. True)\<rparr>, Some (JObj [(''type'', JStr ''ping'')]))])))
     = [''4294967295'', ''0'', ''1'']
   \<and> seq (handle_msgs sample_builtins
      ((start new_server)\<lparr>seq := 4294967294\<rparr>)
      [(\<lparr>write_ok = True, send_ok = (\<lambda>w. True)\<rparr>, Some (JObj [(''type'', JStr ''ping'')])),
       (\<lparr>write_ok = True, send_ok = (\<lambda>w. True)\<rparr>, Some (JObj [(''type'', JStr ''safe'')])),
       (\<lparr>write_ok = False, send_ok = (\<lambda>w. True)\<rparr>,
          Some (JObj [(''type'', JStr ''twist''), (''vx'', JInt 1)])),
       (\<lparr>write_ok = True, send_ok = (\<lambda>w. True)\<rparr>,
          Some (JObj [(''type'', JStr ''led''), (''mask'', JInt 3)])),
       (\<lparr>write_ok = True, send_ok = (\<lambda>w. True)\<rparr>, Some (JObj [(''type'', JStr ''ping'')]))])
     = 1"
  using seq_numbers_consecutive [where B = sample_builtins
      and s = "(start new_server)\<lparr>seq := 4294967294\<rparr>"
      and ms = "[(\<lparr>write_ok = True, send_ok = (\<lambda>w. True)\<rparr>, Some (JObj [(''type'', JStr ''ping'')])),
       (\<lparr>write_ok = True, send_ok = (\<lambda>w. True)\<rparr>, Some (JObj [(''type'', JStr ''safe'')])),
       (\<lparr>write_ok = False, send_ok = (\<lambda>w. True)\<rparr>,
          Some (JObj [(''type'', JStr ''twist''), (''vx'', JInt 1)])),
       (\<lparr>write_ok = True, send_ok = (\<lambda>w. True)\<rparr>,
          Some (JObj [(''type'', JStr ''led''), (''mask'', JInt 3)])),
       (\<lparr>write_ok = True, send_ok = (\<lambda>w. True)\<rparr>, Some (JObj [(''type'', JStr ''ping'')]))]"]
  by (simp add: run_defs last_field_def)

section \<open>Telemetry fan-out\<close>

lemma send_all_fst: "fst (send_all ok p cs (ib, dead)) = echo_all ok p cs ib"
  by (induction cs arbitrary: ib dead) auto

lemma send_all_snd: "snd (send_all ok p cs (ib, dead)) = dead @ filter (\<lambda>w. \<not> ok w) cs"
  by (induction cs arbitrary: ib dead) auto

lemma fold_discard: "fold discard ds cs = filter (\<lambda>w. w \<notin> set ds) cs"
proof (induction ds arbitrary: cs)
  case Nil
  then show ?case by simp
next
  case (Cons a ds)
  have "filter (\<lambda>w. w \<notin> set ds) (removeAll a cs) = filter (\<lambda>w. w \<notin> set (a # ds)) cs"
    by (induction cs) auto
  with Cons show ?case by (simp add: discard_def)
qed

lemma telemetry_line_clients:
  "ws_clients (telemetry_line ok s line) = filter ok (ws_clients s)"
proof (cases "ws_clients s = []")
  case True
  then show ?thesis by (simp add: telemetry_line_def)
next
  case False
  have "filter (\<lambda>w. w \<notin> set (filter (\<lambda>w. \<not> ok w) cs)) cs = filter ok cs" for cs :: "ws list"
    by (rule filter_cong) auto
  then show ?thesis
    using False
    by (simp only: telemetry_line_def Let_def case_prod_beta send_all_snd fold_discard append_Nil)
       simp
qed

lemma telemetry_line_inbox:
  "inbox (telemetry_line ok s line) =
     echo_all ok (JObj [(''type'', JStr ''rx''), (''line'', JStr line)]) (ws_clients s) (inbox s)"
proof (cases "ws_clients s = []")
  case True
  then show ?thesis by (simp add: telemetry_line_def)
next
  case False
  then show ?thesis
    by (simp add: telemetry_line_def Let_def case_prod_beta send_all_fst)
qed

text \<open>
  C4. Let the registry hold M distinct sessions, and let the send fail for the
  session \<open>dead\<close> and for no other. After the broadcast of a device line each of
  the other M - 1 sessions has received the \<open>rx\<close> event, \<open>dead\<close> has received
  nothing, and the registry holds the other M - 1 sessions.
\<close>

theorem broadcast_isolates_failure:
  fixes s :: "'f server" and dead :: ws and ok :: "ws \<Rightarrow> bool" and line :: string
  defines "s' \<equiv> telemetry_line ok s line"
  assumes dist: "distinct (ws_clients s)"
    and mem: "dead \<in> set (ws_clients s)"
    and one: "\<forall>w\<in>set (ws_clients s). ok w = (w \<noteq> dead)"
  shows "(\<forall>w\<in>set (ws_clients s). w \<noteq> dead \<longrightarrow>
            inbox s' w = inbox s w @ [JObj [(''type'', JStr ''rx''), (''line'', JStr line)]])
         \<and> inbox s' dead = inbox s dead
         \<and> set (ws_clients s') = set (ws_clients s) - {dead}
         \<and> length (ws_clients s') = length (ws_clients s) - 1"
proof -
  have f: "filter ok (ws_clients s) = removeAll dead (ws_clients s)"
    unfolding removeAll_filter_not_eq using one by (intro filter_cong) auto
  have c: "ws_clients s' = removeAll dead (ws_clients s)"
    unfolding s'_def by (simp add: telemetry_line_clients f)
  have len: "length (removeAll dead (ws_clients s)) = length (ws_clients s) - 1"
    using dist mem by (simp add: distinct_remove1_removeAll [symmetric] length_remove1)
  let ?p = "JObj [(''type'', JStr ''rx''), (''line'', JStr line)] :: 'f json"
  have "inbox s' w = inbox s w @ [?p]"
    if "w \<in> set (ws_clients s)" and "w \<noteq> dead" for w
    unfolding s'_def telemetry_line_inbox
    using that one by (simp add: echo_all_member [OF dist that(1)])
  moreover have "inbox s' dead = inbox s dead"
    unfolding s'_def telemetry_line_inbox
    using mem one by (simp add: echo_all_member [OF dist mem])
  ultimately show ?thesis
    using c len by auto
qed

theorem broadcast_isolates_failure_witness:
  "inbox (telemetry_line (\<lambda>w. w \<noteq> 2) (add_client 3 (add_client 2 (add_client 1 new_server)))
           ''ODOM,1'') 1 = [JObj [(''type'', JStr ''rx''), (''line'', JStr ''ODOM,1'')]]
   \<and> inbox (telemetry_line (\<lambda>w. w \<noteq> 2) (add_client 3 (add_client 2 (add_client 1 new_server)))
           ''ODOM,1'') 3 = [JObj [(''type'', JStr ''rx''), (''line'', JStr ''ODOM,1'')]]
   \<and> inbox (telemetry_line (\<lambda>w. w \<noteq> 2) (add_client 3 (add_client 2 (add_client 1 new_server)))
           ''ODOM,1'') 2 = []
   \<and> set (ws_clients (telemetry_line (\<lambda>w. w \<noteq> 2)
           (add_client 3 (add_client 2 (add_client 1 new_server))) ''ODOM,1'')) = {1, 3}"
  using broadcast_isolates_failure [where s = "add_client 3 (add_client 2 (add_client 1 new_server))"
      and dead = 2 and ok = "\<lambda>w. w \<noteq> 2" and line = "''ODOM,1''"]
  by (simp add: add_client_def new_server_def telemetry_line_def discard_def Let_def insert_commute)

end
